theory Spec2Isabelle
  imports Complex_Main
begin

section \<open>Data model\<close>

text \<open>
  The program \<^verbatim>\<open>conduction.py\<close> keeps one two-dimensional numpy array \<^verbatim>\<open>T\<close> of shape
  \<^verbatim>\<open>(lenX, lenY)\<close>. The array is a list of rows here; \<^verbatim>\<open>T[i, j]\<close> (and \<^verbatim>\<open>T[i][j]\<close>) is
  \<open>cell T i j\<close>, the first index choosing the row. The source assigns both side lengths in
  one statement, \<^verbatim>\<open>lenX = lenY = 60\<close>, so the model has a single side length \<open>N\<close>.
  The cells are float64 in the source and exact reals here: every statement below is about
  the exact arithmetic of the averaging scheme, without rounding.
\<close>

type_synonym field = "real list list"

datatype error = ZeroDivisionError | ValueError | IndexError

definition cell :: "field \<Rightarrow> nat \<Rightarrow> nat \<Rightarrow> real" where
  "cell T i j = T ! i ! j"

text \<open>The in-place write \<^verbatim>\<open>T[i, j] = v\<close>; the array is threaded through as a value.\<close>

definition put :: "field \<Rightarrow> nat \<Rightarrow> nat \<Rightarrow> real \<Rightarrow> field" where
  "put T i j v = T[i := (T ! i)[j := v]]"

definition shape :: "nat \<Rightarrow> field \<Rightarrow> bool" where
  "shape N T \<longleftrightarrow> length T = N \<and> list_all (\<lambda>r. length r = N) T"

section \<open>Grid initializer (lines 111 to 118)\<close>

text \<open>\<^verbatim>\<open>T = np.empty((lenX, lenY)); T.fill(Tguess)\<close>\<close>

definition fill :: "nat \<Rightarrow> nat \<Rightarrow> real \<Rightarrow> field" where
  "fill lenX lenY v = replicate lenX (replicate lenY v)"

text \<open>
  The four slice assignments of a scalar: \<^verbatim>\<open>T[k:, :] = v\<close>, \<^verbatim>\<open>T[:k, :] = v\<close>,
  \<^verbatim>\<open>T[:, k:] = v\<close> and \<^verbatim>\<open>T[:, :k] = v\<close> for a bound \<open>k \<ge> 0\<close>. A slice that reaches past
  the array is cut at its end, as numpy does.
\<close>

definition set_rows_from :: "nat \<Rightarrow> real \<Rightarrow> field \<Rightarrow> field" where
  "set_rows_from k v T = take k T @ map (\<lambda>r. replicate (length r) v) (drop k T)"

definition set_rows_upto :: "nat \<Rightarrow> real \<Rightarrow> field \<Rightarrow> field" where
  "set_rows_upto k v T = map (\<lambda>r. replicate (length r) v) (take k T) @ drop k T"

definition set_cols_from :: "nat \<Rightarrow> real \<Rightarrow> field \<Rightarrow> field" where
  "set_cols_from k v T = map (\<lambda>r. take k r @ replicate (length r - k) v) T"

definition set_cols_upto :: "nat \<Rightarrow> real \<Rightarrow> field \<Rightarrow> field" where
  "set_cols_upto k v T = map (\<lambda>r. replicate (min k (length r)) v @ drop k r) T"

text \<open>
  \<^verbatim>\<open>T[(lenY-1):, :] = Ttop;  T[:1, :] = Tbottom;  T[:, (lenX-1):] = Tright;  T[:, :1] = Tleft\<close>
  in this order. For \<open>N = 0\<close> the array is empty and the bound \<open>N - 1\<close> (\<open>-1\<close> in the
  source, \<open>0\<close> here) selects nothing either way.
\<close>

definition init :: "nat \<Rightarrow> real \<Rightarrow> real \<Rightarrow> real \<Rightarrow> real \<Rightarrow> real \<Rightarrow> field" where
  "init N Tguess Ttop Tbottom Tleft Tright =
     (let T0 = fill N N Tguess;
          T1 = set_rows_from (N - 1) Ttop T0;
          T2 = set_rows_upto 1 Tbottom T1;
          T3 = set_cols_from (N - 1) Tright T2;
          T4 = set_cols_upto 1 Tleft T3
      in T4)"

section \<open>Relaxation solver (lines 121 to 124)\<close>

text \<open>
  The program runs the solver on the array it has just initialized, of shape \<open>(N, N)\<close>.
  The loop indices go from 1 to \<open>N - 2\<close>, so every index read or written lies between 0
  and \<open>N - 1\<close> and no access is out of range; the statements about the solver are about
  fields of this shape.
\<close>

text \<open>\<^verbatim>\<open>for k in range(lo, hi): s = body(k, s)\<close>, the step being 1 (\<^verbatim>\<open>delta = 1\<close>).\<close>

function for_range :: "nat \<Rightarrow> nat \<Rightarrow> (nat \<Rightarrow> 's \<Rightarrow> 's) \<Rightarrow> 's \<Rightarrow> 's" where
  "for_range lo hi body s = (if lo < hi then for_range (Suc lo) hi body (body lo s) else s)"
  by pat_completeness auto
termination
  by (relation "measure (\<lambda>(lo, hi, body, s). hi - lo)") auto

declare for_range.simps [simp del]

text \<open>\<^verbatim>\<open>T[i, j] = 0.25 * (T[i+1][j] + T[i-1][j] + T[i][j+1] + T[i][j-1])\<close>\<close>

definition relax :: "field \<Rightarrow> nat \<Rightarrow> nat \<Rightarrow> field" where
  "relax T i j =
     put T i j (0.25 * (cell T (i + 1) j + cell T (i - 1) j + cell T i (j + 1) + cell T i (j - 1)))"

text \<open>\<^verbatim>\<open>for j in range(1, lenY-1, delta)\<close>\<close>

definition row_pass :: "nat \<Rightarrow> nat \<Rightarrow> field \<Rightarrow> field" where
  "row_pass N i T = for_range 1 (N - 1) (\<lambda>j T. relax T i j) T"

text \<open>\<^verbatim>\<open>for i in range(1, lenX-1, delta)\<close>\<close>

definition sweep :: "nat \<Rightarrow> field \<Rightarrow> field" where
  "sweep N T = for_range 1 (N - 1) (row_pass N) T"

text \<open>\<^verbatim>\<open>for iteration in range(0, maxIter)\<close>\<close>

definition solver :: "nat \<Rightarrow> nat \<Rightarrow> field \<Rightarrow> field" where
  "solver N maxIter T = for_range 0 maxIter (\<lambda>iteration. sweep N) T"

section \<open>Sampler (lines 82 to 89 and 138)\<close>

text \<open>Python's \<^verbatim>\<open>int(x)\<close> on a float truncates toward zero.\<close>

definition py_int :: "real \<Rightarrow> int" where
  "py_int x = (if 0 \<le> x then \<lfloor>x\<rfloor> else \<lceil>x\<rceil>)"

definition wormA_x :: "nat \<Rightarrow> int" where
  "wormA_x N = py_int (real N / 2 - 0.416 * real N)"

definition wormA_y :: "nat \<Rightarrow> int" where
  "wormA_y N = py_int (real N / 2)"

definition wormB_x :: "nat \<Rightarrow> int" where
  "wormB_x N = py_int (real N / 2)"

definition wormB_y :: "nat \<Rightarrow> int" where
  "wormB_y N = py_int (real N / 2 + 0.416 * real N)"

definition wormC_x :: "nat \<Rightarrow> int" where
  "wormC_x N = py_int (real N / 2 + 0.416 * real N)"

definition wormC_y :: "nat \<Rightarrow> int" where
  "wormC_y N = py_int (real N / 2)"

definition wormD_x :: "nat \<Rightarrow> int" where
  "wormD_x N = py_int (real N / 2)"

definition wormD_y :: "nat \<Rightarrow> int" where
  "wormD_y N = py_int (real N / 2 - 0.416 * real N)"

text \<open>
  One index on an axis of length \<open>n\<close>: numpy counts a negative index from the end and
  raises IndexError outside \<open>-n .. n-1\<close>.
\<close>

definition axis_index :: "nat \<Rightarrow> int \<Rightarrow> error + nat" where
  "axis_index n k =
     (if 0 \<le> k \<and> k < int n then Inr (nat k)
      else if - int n \<le> k \<and> k < 0 then Inr (nat (k + int n))
      else Inl IndexError)"

text \<open>The read \<^verbatim>\<open>T[y, x]\<close> of an array of shape \<open>(N, N)\<close>.\<close>

definition read_at :: "nat \<Rightarrow> field \<Rightarrow> int \<Rightarrow> int \<Rightarrow> error + real" where
  "read_at N T y x =
     (case axis_index N y of
        Inl e \<Rightarrow> Inl e
      | Inr i \<Rightarrow> (case axis_index N x of
                    Inl e \<Rightarrow> Inl e
                  | Inr j \<Rightarrow> Inr (cell T i j)))"

text \<open>
  \<^verbatim>\<open>concentrations = [T[wormA_y,wormA_x], T[wormB_y,wormB_x], T[wormC_y,wormC_x], T[wormD_y,wormD_x]]\<close>
\<close>

definition sampler :: "nat \<Rightarrow> field \<Rightarrow> error + real list" where
  "sampler N T =
     (case read_at N T (wormA_y N) (wormA_x N) of Inl e \<Rightarrow> Inl e | Inr a \<Rightarrow>
      (case read_at N T (wormB_y N) (wormB_x N) of Inl e \<Rightarrow> Inl e | Inr b \<Rightarrow>
       (case read_at N T (wormC_y N) (wormC_x N) of Inl e \<Rightarrow> Inl e | Inr c \<Rightarrow>
        (case read_at N T (wormD_y N) (wormD_x N) of Inl e \<Rightarrow> Inl e | Inr d \<Rightarrow>
           Inr [a, b, c, d]))))"

section \<open>Sweep driver (lines 49 to 70, 150 and 153)\<close>

text \<open>
  The hydrogel parameters of lines 49 to 57; \<^verbatim>\<open>de\<close> of line 58 is computed from two of
  them.
\<close>

record hydrogel =
  Et :: real
  drug_size :: real
  pore_size :: real
  tor :: real
  diffusivity_NO :: real
  diffusivity_EtOH :: real
  diffusivity_CO2 :: real
  diffusivity_N2 :: real
  diffusivity_acetone :: real

text \<open>
  The literals the loop body works from: the sweep bounds \<^verbatim>\<open>start\<close>, \<^verbatim>\<open>end\<close>, \<^verbatim>\<open>d\<close>
  (\<open>end\<close> is written \<open>endv\<close>), the side length and the boundary and guess values.
\<close>

record config =
  start :: int
  endv :: int
  d :: int
  len :: nat
  Ttop :: real
  Tbottom :: real
  Tleft :: real
  Tright :: real
  Tguess :: real

text \<open>
  Python's \<^verbatim>\<open>range(start, stop, step)\<close>: ValueError for a zero step, otherwise the
  items \<open>start + k * step\<close> for \<open>k\<close> below the length CPython computes.
\<close>

definition py_range :: "int \<Rightarrow> int \<Rightarrow> int \<Rightarrow> error + int list" where
  "py_range lo stop step =
     (if step = 0 then Inl ValueError
      else if 0 < step
        then Inr (map (\<lambda>k. lo + int k * step) [0..<nat ((stop - lo + step - 1) div step)])
        else Inr (map (\<lambda>k. lo + int k * step) [0..<nat ((lo - stop - step - 1) div (- step))]))"

text \<open>
  What the program writes: one image per sweep step (\<^verbatim>\<open>plt.savefig\<close> of the contour of
  \<^verbatim>\<open>T\<close>, named by \<^verbatim>\<open>n\<close>) and the table (\<^verbatim>\<open>np.savetxt\<close> of \<^verbatim>\<open>data\<close>).
\<close>

datatype written = SaveFig int field | SaveTxt "(int \<times> real list) list"

text \<open>
  One pass of the loop body for the count \<open>n\<close>: a new array, \<^verbatim>\<open>maxIter = n\<close> sweeps
  (\<^verbatim>\<open>range(0, maxIter)\<close> is empty for a negative \<open>n\<close>, hence \<open>nat n\<close>), then the samples.
\<close>

definition sweep_step :: "config \<Rightarrow> int \<Rightarrow> error + (field \<times> real list)" where
  "sweep_step c n =
     (let T = init (len c) (Tguess c) (Ttop c) (Tbottom c) (Tleft c) (Tright c);
          T = solver (len c) (nat n) T
      in case sampler (len c) T of
           Inl e \<Rightarrow> Inl e
         | Inr concentrations \<Rightarrow> Inr (T, concentrations))"

text \<open>
  \<^verbatim>\<open>for n in range(start,end+1,d): ...; data.append([n,concentrations])\<close>, with the
  accumulated \<^verbatim>\<open>data\<close> and the images written so far as the loop state.
\<close>

fun driver_loop ::
  "config \<Rightarrow> int list \<Rightarrow> (int \<times> real list) list \<times> written list
     \<Rightarrow> error + ((int \<times> real list) list \<times> written list)" where
  "driver_loop c [] st = Inr st"
| "driver_loop c (n # ns) (data, outs) =
     (case sweep_step c n of
        Inl e \<Rightarrow> Inl e
      | Inr (T, concentrations) \<Rightarrow>
          driver_loop c ns (data @ [(n, concentrations)], outs @ [SaveFig n T]))"

text \<open>
  The whole program: line 58 divides by \<^verbatim>\<open>pore_size\<close> (ZeroDivisionError for zero),
  line 70 builds the range (ValueError for a zero step), the loop runs, line 153 writes the
  table. Each of the three errors is raised before anything has been written: the only
  one inside the loop is the IndexError of the sampler on an empty array, in the first
  pass and ahead of its \<^verbatim>\<open>savefig\<close>. Console output and the plot window are left out.
\<close>

definition main :: "hydrogel \<Rightarrow> config \<Rightarrow> error + written list" where
  "main h c =
     (if pore_size h = 0 then Inl ZeroDivisionError
      else let de = drug_size h / pore_size h in
        (case py_range (start c) (endv c + 1) (d c) of
           Inl e \<Rightarrow> Inl e
         | Inr counts \<Rightarrow>
             (case driver_loop c counts ([], []) of
                Inl e \<Rightarrow> Inl e
              | Inr (data, outs) \<Rightarrow> Inr (outs @ [SaveTxt data]))))"

text \<open>The values the source hard-codes.\<close>

definition reference_hydrogel :: hydrogel where
  "reference_hydrogel =
     \<lparr>Et = 0.2, drug_size = 4.5 / 10 ^ 7, pore_size = 9.5 / 10 ^ 6, tor = 2.2,
      diffusivity_NO = 2.6 / 10 ^ 5, diffusivity_EtOH = 0.84 / 10 ^ 5,
      diffusivity_CO2 = 1.92 / 10 ^ 5, diffusivity_N2 = 1.88 / 10 ^ 5,
      diffusivity_acetone = 1.16 / 10 ^ 5\<rparr>"

definition reference_config :: config where
  "reference_config =
     \<lparr>start = 0, endv = 500, d = 20, len = 60,
      Ttop = 100, Tbottom = 0, Tleft = 100, Tright = 100, Tguess = 0\<rparr>"

section \<open>The relaxation as the specification words it\<close>

text \<open>
  The specification's wording of the solver, to compare the loops with: the interior cells
  are the index pairs with both indices from 1 to \<open>N - 2\<close>, listed with the first axis
  outermost and both axes ascending; one sweep visits them in this order and overwrites
  each, in the one array, with the arithmetic mean of its four direct neighbours; the
  solver is \<open>K\<close> such sweeps and nothing else.
\<close>

definition interior_cells :: "nat \<Rightarrow> (nat \<times> nat) list" where
  "interior_cells N = concat (map (\<lambda>i. map (\<lambda>j. (i, j)) [1..<N - 1]) [1..<N - 1])"

definition neighbour_mean :: "field \<Rightarrow> nat \<Rightarrow> nat \<Rightarrow> real" where
  "neighbour_mean T i j =
     (cell T (i - 1) j + cell T (i + 1) j + cell T i (j - 1) + cell T i (j + 1)) / 4"

definition gauss_seidel_sweep :: "nat \<Rightarrow> field \<Rightarrow> field" where
  "gauss_seidel_sweep N T =
     fold (\<lambda>(i, j) T. put T i j (neighbour_mean T i j)) (interior_cells N) T"

definition relaxation_spec :: "nat \<Rightarrow> nat \<Rightarrow> field \<Rightarrow> field" where
  "relaxation_spec N K T = (gauss_seidel_sweep N ^^ K) T"

text \<open>
  A cell of the outermost rows and columns of an \<open>N\<close> by \<open>N\<close> field, and a cell strictly
  inside.
\<close>

definition on_boundary :: "nat \<Rightarrow> nat \<Rightarrow> nat \<Rightarrow> bool" where
  "on_boundary N i j \<longleftrightarrow> i < N \<and> j < N \<and> (i = 0 \<or> i = N - 1 \<or> j = 0 \<or> j = N - 1)"

definition interior :: "nat \<Rightarrow> nat \<Rightarrow> nat \<Rightarrow> bool" where
  "interior N i j \<longleftrightarrow> 1 \<le> i \<and> i < N - 1 \<and> 1 \<le> j \<and> j < N - 1"


text \<open>
  The sweep driver as the specification words it: the iteration counts are the arithmetic
  sequence from the start value to the end value inclusive; each count gets a field built
  anew from the guess and the boundary values and swept that many times; its four samples
  are the cells at the sample coordinates, read as \<open>T[y, x]\<close>.
\<close>

definition iteration_counts :: "int \<Rightarrow> int \<Rightarrow> int \<Rightarrow> int list" where
  "iteration_counts lo hi step =
     map (\<lambda>k. lo + int k * step) [0..<nat ((hi - lo) div step + 1)]"

definition fresh_field :: "config \<Rightarrow> int \<Rightarrow> field" where
  "fresh_field c n =
     solver (len c) (nat n) (init (len c) (Tguess c) (Ttop c) (Tbottom c) (Tleft c) (Tright c))"

definition sample_cells :: "nat \<Rightarrow> field \<Rightarrow> real list" where
  "sample_cells N T =
     [cell T (nat (wormA_y N)) (nat (wormA_x N)), cell T (nat (wormB_y N)) (nat (wormB_x N)),
      cell T (nat (wormC_y N)) (nat (wormC_x N)), cell T (nat (wormD_y N)) (nat (wormD_x N))]"

section \<open>The loops as folds, and what one sweep does to each cell\<close>

lemma for_range_fold: "for_range lo hi body s = fold body [lo..<hi] s"
proof (induction lo hi body s rule: for_range.induct)
  case (1 lo hi body s)
  show ?case
  proof (cases "lo < hi")
    case True
    with 1 show ?thesis
      by (subst for_range.simps) (simp add: upt_conv_Cons)
  next
    case False
    then show ?thesis
      by (subst for_range.simps) simp
  qed
qed

lemma shape_length: "shape N T \<Longrightarrow> length T = N"
  by (simp add: shape_def)

lemma shape_row: "shape N T \<Longrightarrow> i < N \<Longrightarrow> length (T ! i) = N"
  by (simp add: shape_def list_all_length)

lemma cell_put_other: "i' \<noteq> i \<or> j' \<noteq> j \<Longrightarrow> cell (put T i j v) i' j' = cell T i' j'"
  by (cases "i < length T") (auto simp: cell_def put_def nth_list_update list_update_beyond)

lemma cell_put_same: "shape N T \<Longrightarrow> i < N \<Longrightarrow> j < N \<Longrightarrow> cell (put T i j v) i j = v"
  by (simp add: cell_def put_def shape_length shape_row)

lemma shape_put: "shape N T \<Longrightarrow> shape N (put T i j v)"
  by (cases "i < length T")
    (auto simp: shape_def put_def list_all_length nth_list_update list_update_beyond)

lemma shape_relax: "shape N T \<Longrightarrow> shape N (relax T i j)"
  by (simp add: relax_def shape_put)

lemma cell_relax_other: "i' \<noteq> i \<or> j' \<noteq> j \<Longrightarrow> cell (relax T i j) i' j' = cell T i' j'"
  by (simp add: relax_def cell_put_other)

lemma cell_relax_same:
  "shape N T \<Longrightarrow> i < N \<Longrightarrow> j < N \<Longrightarrow>
   cell (relax T i j) i j =
     0.25 * (cell T (i + 1) j + cell T (i - 1) j + cell T i (j + 1) + cell T i (j - 1))"
  by (simp add: relax_def cell_put_same)

lemma shape_fold_relax: "shape N T \<Longrightarrow> shape N (fold (\<lambda>j T. relax T i j) js T)"
  by (induction js arbitrary: T) (simp_all add: shape_relax)

lemma cell_fold_relax_other:
  "i' \<noteq> i \<or> j' \<notin> set js \<Longrightarrow> cell (fold (\<lambda>j T. relax T i j) js T) i' j' = cell T i' j'"
  by (induction js arbitrary: T) (auto simp: cell_relax_other)

lemma shape_row_pass: "shape N T \<Longrightarrow> shape N (row_pass N i T)"
  by (simp add: row_pass_def for_range_fold shape_fold_relax)

lemma cell_row_pass_other:
  "i' \<noteq> i \<or> j' = 0 \<or> N - 1 \<le> j' \<Longrightarrow> cell (row_pass N i T) i' j' = cell T i' j'"
  by (auto simp: row_pass_def for_range_fold intro!: cell_fold_relax_other)

lemma cell_fold_relax_same:
  assumes "shape N T" "1 \<le> i" "i < N"
  shows "k \<le> N - 1 \<Longrightarrow> 1 \<le> j \<Longrightarrow> j < k \<Longrightarrow>
     cell (fold (\<lambda>j T. relax T i j) [1..<k] T) i j =
       0.25 * (cell T (i + 1) j + cell T (i - 1) j + cell T i (j + 1)
               + cell (fold (\<lambda>j T. relax T i j) [1..<k] T) i (j - 1))"
proof (induction k)
  case 0
  then show ?case by simp
next
  case (Suc k)
  let ?F = "fold (\<lambda>j T. relax T i j) [1..<k] T"
  have k1: "1 \<le> k" using Suc.prems by simp
  have step: "fold (\<lambda>j T. relax T i j) [1..<Suc k] T = relax ?F i k"
    using k1 by simp
  have sh: "shape N ?F" using assms(1) by (rule shape_fold_relax)
  show ?case
  proof (cases "j = k")
    case True
    have "cell (relax ?F i k) i k =
        0.25 * (cell ?F (i + 1) k + cell ?F (i - 1) k + cell ?F i (k + 1) + cell ?F i (k - 1))"
      using sh assms(3) Suc.prems(1) by (intro cell_relax_same) auto
    moreover have "cell ?F (i + 1) k = cell T (i + 1) k"
      by (rule cell_fold_relax_other) simp
    moreover have "cell ?F (i - 1) k = cell T (i - 1) k"
      using assms(2) by (intro cell_fold_relax_other) simp
    moreover have "cell ?F i (k + 1) = cell T i (k + 1)"
      by (rule cell_fold_relax_other) simp
    moreover have "cell (relax ?F i k) i (k - 1) = cell ?F i (k - 1)"
      using k1 by (intro cell_relax_other) simp
    ultimately show ?thesis
      using True step by simp
  next
    case False
    then have jk: "j < k" using Suc.prems by simp
    have "cell (relax ?F i k) i j = cell ?F i j"
      using False by (intro cell_relax_other) simp
    moreover have "cell (relax ?F i k) i (j - 1) = cell ?F i (j - 1)"
      using jk by (intro cell_relax_other) simp
    ultimately show ?thesis
      using Suc.IH [OF _ Suc.prems(2) jk] Suc.prems(1) step by simp
  qed
qed

lemma cell_row_pass_same:
  assumes "shape N T" "1 \<le> i" "i < N" "1 \<le> j" "j < N - 1"
  shows "cell (row_pass N i T) i j =
       0.25 * (cell T (i + 1) j + cell T (i - 1) j + cell T i (j + 1)
               + cell (row_pass N i T) i (j - 1))"
  using cell_fold_relax_same [OF assms(1-3) le_refl assms(4,5)]
  by (simp add: row_pass_def for_range_fold)

lemma shape_fold_row_pass: "shape N T \<Longrightarrow> shape N (fold (row_pass N) is T)"
  by (induction "is" arbitrary: T) (simp_all add: shape_row_pass)

lemma cell_fold_row_pass_other:
  "i' \<notin> set is \<or> j' = 0 \<or> N - 1 \<le> j' \<Longrightarrow> cell (fold (row_pass N) is T) i' j' = cell T i' j'"
  by (induction "is" arbitrary: T) (auto simp: cell_row_pass_other)

lemma cell_fold_row_pass_same:
  assumes "shape N T"
  shows "m \<le> N - 1 \<Longrightarrow> 1 \<le> i \<Longrightarrow> i < m \<Longrightarrow> 1 \<le> j \<Longrightarrow> j < N - 1 \<Longrightarrow>
     cell (fold (row_pass N) [1..<m] T) i j =
       0.25 * (cell T (i + 1) j + cell (fold (row_pass N) [1..<m] T) (i - 1) j
               + cell T i (j + 1) + cell (fold (row_pass N) [1..<m] T) i (j - 1))"
proof (induction m)
  case 0
  then show ?case by simp
next
  case (Suc m)
  let ?G = "fold (row_pass N) [1..<m] T"
  have m1: "1 \<le> m" using Suc.prems by simp
  have step: "fold (row_pass N) [1..<Suc m] T = row_pass N m ?G"
    using m1 by simp
  have sh: "shape N ?G" using assms by (rule shape_fold_row_pass)
  show ?case
  proof (cases "i = m")
    case True
    have "cell (row_pass N m ?G) m j =
        0.25 * (cell ?G (m + 1) j + cell ?G (m - 1) j + cell ?G m (j + 1)
                + cell (row_pass N m ?G) m (j - 1))"
      using sh m1 Suc.prems by (intro cell_row_pass_same) auto
    moreover have "cell ?G (m + 1) j = cell T (m + 1) j"
      by (rule cell_fold_row_pass_other) simp
    moreover have "cell ?G m (j + 1) = cell T m (j + 1)"
      by (rule cell_fold_row_pass_other) simp
    moreover have "cell (row_pass N m ?G) (m - 1) j = cell ?G (m - 1) j"
      using m1 by (intro cell_row_pass_other) simp
    ultimately show ?thesis
      using True step by simp
  next
    case False
    then have im: "i < m" using Suc.prems by simp
    have "cell (row_pass N m ?G) i j = cell ?G i j"
      using False by (intro cell_row_pass_other) simp
    moreover have "cell (row_pass N m ?G) (i - 1) j = cell ?G (i - 1) j"
      using im by (intro cell_row_pass_other) simp
    moreover have "cell (row_pass N m ?G) i (j - 1) = cell ?G i (j - 1)"
      using False by (intro cell_row_pass_other) simp
    ultimately show ?thesis
      using Suc.IH [OF _ Suc.prems(2) im Suc.prems(4,5)] Suc.prems(1) step by simp
  qed
qed

lemma shape_sweep: "shape N T \<Longrightarrow> shape N (sweep N T)"
  by (simp add: sweep_def for_range_fold shape_fold_row_pass)

lemma cell_sweep_boundary:
  "i = 0 \<or> j = 0 \<or> N - 1 \<le> i \<or> N - 1 \<le> j \<Longrightarrow> cell (sweep N T) i j = cell T i j"
  by (auto simp: sweep_def for_range_fold intro!: cell_fold_row_pass_other)

lemma cell_sweep_interior:
  assumes "shape N T" "1 \<le> i" "i < N - 1" "1 \<le> j" "j < N - 1"
  shows "cell (sweep N T) i j =
       0.25 * (cell T (i + 1) j + cell (sweep N T) (i - 1) j
               + cell T i (j + 1) + cell (sweep N T) i (j - 1))"
  using cell_fold_row_pass_same [OF assms(1) le_refl assms(2-5)]
  by (simp add: sweep_def for_range_fold)

section \<open>The initialized field, and the solver as an iterated sweep\<close>

lemma shape_fill: "shape N (fill N N v)"
  by (simp add: shape_def fill_def list_all_length)

lemma cell_fill: "i < N \<Longrightarrow> j < N \<Longrightarrow> cell (fill N N v) i j = v"
  by (simp add: cell_def fill_def)

lemma shape_set_rows_from: "shape N T \<Longrightarrow> shape N (set_rows_from k v T)"
  by (auto simp: shape_def set_rows_from_def list_all_iff dest: in_set_takeD in_set_dropD)

lemma shape_set_rows_upto: "shape N T \<Longrightarrow> shape N (set_rows_upto k v T)"
  by (auto simp: shape_def set_rows_upto_def list_all_iff dest: in_set_takeD in_set_dropD)

lemma shape_set_cols_from: "shape N T \<Longrightarrow> shape N (set_cols_from k v T)"
  by (auto simp: shape_def set_cols_from_def list_all_iff)

lemma shape_set_cols_upto: "shape N T \<Longrightarrow> shape N (set_cols_upto k v T)"
  by (auto simp: shape_def set_cols_upto_def list_all_iff)

lemma cell_set_rows_from:
  "shape N T \<Longrightarrow> i < N \<Longrightarrow> j < N \<Longrightarrow>
   cell (set_rows_from k v T) i j = (if k \<le> i then v else cell T i j)"
  by (auto simp: cell_def set_rows_from_def nth_append shape_def list_all_length)

lemma cell_set_rows_upto:
  "shape N T \<Longrightarrow> i < N \<Longrightarrow> j < N \<Longrightarrow>
   cell (set_rows_upto k v T) i j = (if i < k then v else cell T i j)"
  by (auto simp: cell_def set_rows_upto_def nth_append shape_def list_all_length)

lemma cell_set_cols_from:
  "shape N T \<Longrightarrow> i < N \<Longrightarrow> j < N \<Longrightarrow>
   cell (set_cols_from k v T) i j = (if k \<le> j then v else cell T i j)"
  by (auto simp: cell_def set_cols_from_def nth_append shape_def list_all_length)

lemma cell_set_cols_upto:
  "shape N T \<Longrightarrow> i < N \<Longrightarrow> j < N \<Longrightarrow>
   cell (set_cols_upto k v T) i j = (if j < k then v else cell T i j)"
  by (auto simp: cell_def set_cols_upto_def nth_append shape_def list_all_length)

lemma shape_init: "shape N (init N g t b l r)"
  by (simp add: init_def shape_fill shape_set_rows_from shape_set_rows_upto
      shape_set_cols_from shape_set_cols_upto)

lemma cell_init:
  assumes "i < N" "j < N"
  shows "cell (init N g t b l r) i j =
     (if j = 0 then l else if j = N - 1 then r
      else if i = 0 then b else if i = N - 1 then t else g)"
proof -
  let ?T0 = "fill N N g"
  let ?T1 = "set_rows_from (N - 1) t ?T0"
  let ?T2 = "set_rows_upto 1 b ?T1"
  let ?T3 = "set_cols_from (N - 1) r ?T2"
  have s1: "shape N ?T1" by (intro shape_set_rows_from shape_fill)
  have s2: "shape N ?T2" by (intro shape_set_rows_upto s1)
  have s3: "shape N ?T3" by (intro shape_set_cols_from s2)
  have "cell (init N g t b l r) i j = (if j < 1 then l else cell ?T3 i j)"
    using cell_set_cols_upto [OF s3 assms, of 1 l] by (simp add: init_def)
  also have "cell ?T3 i j = (if N - 1 \<le> j then r else cell ?T2 i j)"
    by (rule cell_set_cols_from [OF s2 assms])
  also have "cell ?T2 i j = (if i < 1 then b else cell ?T1 i j)"
    by (rule cell_set_rows_upto [OF s1 assms])
  also have "cell ?T1 i j = (if N - 1 \<le> i then t else g)"
    using cell_set_rows_from [OF shape_fill assms, of "N - 1" t g] assms
    by (simp add: cell_fill)
  finally show ?thesis
    using assms by auto
qed

lemma solver_0: "solver N 0 T = T"
  by (simp add: solver_def for_range_fold)

lemma solver_Suc: "solver N (Suc K) T = sweep N (solver N K T)"
  by (simp add: solver_def for_range_fold)

lemma solver_funpow: "solver N K T = (sweep N ^^ K) T"
  by (induction K) (simp_all add: solver_0 solver_Suc)

lemma shape_solver: "shape N T \<Longrightarrow> shape N (solver N K T)"
  by (induction K) (simp_all add: solver_0 solver_Suc shape_sweep)

lemma cell_solver_boundary:
  "i = 0 \<or> j = 0 \<or> N - 1 \<le> i \<or> N - 1 \<le> j \<Longrightarrow> cell (solver N K T) i j = cell T i j"
  by (induction K) (simp_all add: solver_0 solver_Suc cell_sweep_boundary)

section \<open>Claims about the initializer, the solver and the sampler\<close>

lemma worm_60:
  "wormA_x 60 = 5" "wormA_y 60 = 30" "wormB_x 60 = 30" "wormB_y 60 = 54"
  "wormC_x 60 = 54" "wormC_y 60 = 30" "wormD_x 60 = 30" "wormD_y 60 = 5"
  by (simp_all add: wormA_x_def wormA_y_def wormB_x_def wormB_y_def
      wormC_x_def wormC_y_def wormD_x_def wormD_y_def py_int_def)

lemma sampler_60:
  "sampler 60 T = Inr [cell T 30 5, cell T 54 30, cell T 30 54, cell T 5 30]"
  by (simp add: sampler_def read_at_def axis_index_def worm_60)

lemma interior_cells_member: "(i, j) \<in> set (interior_cells N) \<longleftrightarrow> interior N i j"
  by (auto simp: interior_cells_def interior_def image_iff)

lemma interior_cells_range:
  "(i, j) \<in> set (interior_cells N) \<longleftrightarrow> 1 \<le> i \<and> i \<le> N - 2 \<and> 1 \<le> j \<and> j \<le> N - 2"
  by (auto simp: interior_cells_member interior_def)

lemma relax_mean: "relax T i j = put T i j (neighbour_mean T i j)"
  by (simp add: relax_def neighbour_mean_def ac_simps)

lemma fold_over_concat: "fold f (concat xss) = fold (fold f) xss"
  by (induction xss) simp_all

lemma sweep_gauss_seidel: "sweep N T = gauss_seidel_sweep N T"
proof -
  have "fold (\<lambda>(i, j) T. put T i j (neighbour_mean T i j)) (map (\<lambda>j. (i, j)) js) =
        fold (\<lambda>j T. relax T i j) js" for i js
    by (simp add: fold_map comp_def relax_mean)
  moreover have "row_pass N = (\<lambda>i. fold (\<lambda>j T. relax T i j) [1..<N - 1])"
    by (simp add: fun_eq_iff row_pass_def for_range_fold)
  ultimately show ?thesis
    by (simp add: sweep_def for_range_fold gauss_seidel_sweep_def
        interior_cells_def fold_over_concat fold_map comp_def)
qed

lemma solver_relaxation_spec: "solver N K T = relaxation_spec N K T"
  by (induction K) (simp_all add: solver_0 solver_Suc relaxation_spec_def sweep_gauss_seidel)

lemma cell_solver_interior:
  assumes "shape N T" "interior N i j"
  shows "cell (solver N (Suc K) T) i j =
          0.25 * (cell (solver N K T) (i + 1) j + cell (solver N (Suc K) T) (i - 1) j
                  + cell (solver N K T) i (j + 1) + cell (solver N (Suc K) T) i (j - 1))"
  using cell_sweep_interior [OF shape_solver [OF assms(1), of K]] assms(2)
  by (simp add: solver_Suc interior_def)

text \<open>
  C1. On a field of side \<open>N\<close>, for every iteration count \<open>K\<close>, the solver is exactly
  \<open>K\<close> sweeps in the specification's sense, with nothing that could end the iteration
  early: a sweep visits the interior cells, the index pairs from 1 to \<open>N - 2\<close> on both
  axes, first axis outer, second axis inner, both ascending, and overwrites each in place
  by a quarter of the sum of its four neighbours. The update reads the neighbours above and
  to the left as the running sweep has already rewritten them, and the two others as the
  previous sweep left them (Gauss-Seidel).
\<close>

theorem C1_solver_is_K_gauss_seidel_sweeps:
  "shape N T \<Longrightarrow>
     solver N K T = relaxation_spec N K T
     \<and> ((i, j) \<in> set (interior_cells N) \<longleftrightarrow> 1 \<le> i \<and> i \<le> N - 2 \<and> 1 \<le> j \<and> j \<le> N - 2)
     \<and> (interior N i j \<longrightarrow>
          cell (solver N (Suc K) T) i j =
            0.25 * (cell (solver N K T) (i + 1) j + cell (solver N (Suc K) T) (i - 1) j
                    + cell (solver N K T) i (j + 1) + cell (solver N (Suc K) T) i (j - 1)))"
  using solver_relaxation_spec interior_cells_range cell_solver_interior by blast

theorem C1_witness:
  "shape 3 (init 3 0 100 0 100 100)
   \<and> solver 3 0 (init 3 0 100 0 100 100) = relaxation_spec 3 0 (init 3 0 100 0 100 100)
   \<and> interior 3 1 1
   \<and> cell (solver 3 (Suc 0) (init 3 0 100 0 100 100)) 1 1 = 75"
proof -
  have sh: "shape 3 (init 3 0 100 0 100 100)" by (rule shape_init)
  have int: "interior 3 1 1" by (simp add: interior_def)
  have b: "cell (solver 3 (Suc 0) (init 3 0 100 0 100 100)) 0 1 = 0"
          "cell (solver 3 (Suc 0) (init 3 0 100 0 100 100)) 1 0 = 100"
    by (simp_all add: cell_solver_boundary cell_init)
  have c: "cell (solver 3 0 (init 3 0 100 0 100 100)) 2 1 = 100"
          "cell (solver 3 0 (init 3 0 100 0 100 100)) 1 2 = 100"
    by (simp_all add: solver_0 cell_init)
  note w = C1_solver_is_K_gauss_seidel_sweeps [OF sh, of 0 1 1]
  have A: "solver 3 0 (init 3 0 100 0 100 100) = relaxation_spec 3 0 (init 3 0 100 0 100 100)"
    using w by (rule conjunct1)
  have "cell (solver 3 (Suc 0) (init 3 0 100 0 100 100)) 1 1 =
          0.25 * (cell (solver 3 0 (init 3 0 100 0 100 100)) (1 + 1) 1
                  + cell (solver 3 (Suc 0) (init 3 0 100 0 100 100)) (1 - 1) 1
                  + cell (solver 3 0 (init 3 0 100 0 100 100)) 1 (1 + 1)
                  + cell (solver 3 (Suc 0) (init 3 0 100 0 100 100)) 1 (1 - 1))"
    using w int by blast
  then have B: "cell (solver 3 (Suc 0) (init 3 0 100 0 100 100)) 1 1 = 75"
    using b c by (simp add: eval_nat_numeral)
  show ?thesis
    by (intro conjI A sh int B)
qed

text \<open>
  C2. For every number of sweeps \<open>K\<close>, every cell of the outermost rows and columns (row
  0, row \<open>N - 1\<close>, column 0, column \<open>N - 1\<close>) holds after \<open>K\<close> sweeps exactly what it held
  before them: the solver writes no boundary cell of a field of side \<open>N\<close>. On the
  initialized field these cells hold the stamped boundary values.
\<close>

theorem C2_boundary_unchanged:
  "shape N T \<Longrightarrow> on_boundary N i j \<Longrightarrow>
     cell (solver N K T) i j = cell T i j
     \<and> cell (solver N K (init N g t b l r)) i j = cell (init N g t b l r) i j
     \<and> cell (init N g t b l r) i j =
         (if j = 0 then l else if j = N - 1 then r else if i = 0 then b else t)"
  by (auto simp: on_boundary_def cell_solver_boundary cell_init)

theorem C2_witness:
  "shape 4 (solver 4 1 (init 4 0 100 0 100 100)) \<and> on_boundary 4 3 2
   \<and> cell (solver 4 7 (solver 4 1 (init 4 0 100 0 100 100))) 3 2
       = cell (solver 4 1 (init 4 0 100 0 100 100)) 3 2
   \<and> cell (solver 4 7 (init 4 0 100 0 100 100)) 3 2 = cell (init 4 0 100 0 100 100) 3 2
   \<and> cell (init 4 0 100 0 100 100) 3 2 = 100"
proof -
  have sh: "shape 4 (solver 4 1 (init 4 0 100 0 100 100))"
    by (intro shape_solver shape_init)
  have h: "on_boundary 4 3 2"
    by (simp add: on_boundary_def)
  show ?thesis
    using sh h C2_boundary_unchanged [OF sh h, of 7 0 100 0 100 100]
    by simp
qed



text \<open>
  C4. With iteration count 0 the solver returns the field it was given. For the configured
  side length 60 the four sample cells are interior cells, and the sampler reads the
  guess value at all four of them from the freshly initialized field.
\<close>

theorem C4_zero_sweeps:
  "solver N 0 T = T
   \<and> sampler 60 (solver 60 0 (init 60 g t b l r)) = Inr [g, g, g, g]
   \<and> interior 60 30 5 \<and> interior 60 54 30 \<and> interior 60 30 54 \<and> interior 60 5 30"
  by (simp add: solver_0 sampler_60 cell_init interior_def)

section \<open>The maximum principle\<close>

lemma not_interior_boundary:
  "\<not> interior N i j \<Longrightarrow> i = 0 \<or> j = 0 \<or> N - 1 \<le> i \<or> N - 1 \<le> j"
  by (auto simp: interior_def)

lemma cell_sweep_interior':
  assumes "shape N T" "interior N i j"
  shows "cell (sweep N T) i j =
       0.25 * (cell T (i + 1) j + cell (sweep N T) (i - 1) j
               + cell T i (j + 1) + cell (sweep N T) i (j - 1))"
  using assms cell_sweep_interior by (simp add: interior_def)

text \<open>
  The cells of two fields that are related cell by cell stay related through a sweep, for
  any relation that the four-neighbour mean respects.
\<close>

lemma sweep_rel:
  assumes sh: "shape N T" "shape N T'"
    and R: "\<And>a b c d a' b' c' d'. R a a' \<Longrightarrow> R b b' \<Longrightarrow> R c c' \<Longrightarrow> R d d' \<Longrightarrow>
              R (0.25 * (a + b + c + d)) (0.25 * (a' + b' + c' + d'))"
    and cells: "\<And>i j. i < N \<Longrightarrow> j < N \<Longrightarrow> R (cell T i j) (cell T' i j)"
  shows "i < N \<Longrightarrow> j < N \<Longrightarrow> R (cell (sweep N T) i j) (cell (sweep N T') i j)"
proof (induction "i + j" arbitrary: i j rule: less_induct)
  case less
  show ?case
  proof (cases "interior N i j")
    case True
    then have ij: "1 \<le> i" "i < N - 1" "1 \<le> j" "j < N - 1"
      by (simp_all add: interior_def)
    have a: "R (cell T (i + 1) j) (cell T' (i + 1) j)"
      using ij less.prems by (intro cells) auto
    have b: "R (cell (sweep N T) (i - 1) j) (cell (sweep N T') (i - 1) j)"
      using ij less.prems by (intro less.hyps) auto
    have c: "R (cell T i (j + 1)) (cell T' i (j + 1))"
      using ij less.prems by (intro cells) auto
    have d: "R (cell (sweep N T) i (j - 1)) (cell (sweep N T') i (j - 1))"
      using ij less.prems by (intro less.hyps) auto
    show ?thesis
      using R [OF a b c d]
      by (simp only: cell_sweep_interior' [OF sh(1) True] cell_sweep_interior' [OF sh(2) True])
  next
    case False
    then have nb: "i = 0 \<or> j = 0 \<or> N - 1 \<le> i \<or> N - 1 \<le> j"
      by (rule not_interior_boundary)
    have "cell (sweep N T) i j = cell T i j" "cell (sweep N T') i j = cell T' i j"
      using nb by (rule cell_sweep_boundary)+
    then show ?thesis
      using cells less.prems by simp
  qed
qed

lemma sweep_lower:
  assumes "shape N T" "\<And>i j. i < N \<Longrightarrow> j < N \<Longrightarrow> lo \<le> cell T i j" "i < N" "j < N"
  shows "lo \<le> cell (sweep N T) i j"
  using sweep_rel [where R = "\<lambda>a a'. lo \<le> a", OF assms(1) assms(1) _ assms(2) assms(3,4)]
  by simp

lemma sweep_upper:
  assumes "shape N T" "\<And>i j. i < N \<Longrightarrow> j < N \<Longrightarrow> cell T i j \<le> hi" "i < N" "j < N"
  shows "cell (sweep N T) i j \<le> hi"
  using sweep_rel [where R = "\<lambda>a a'. a \<le> hi", OF assms(1) assms(1) _ assms(2) assms(3,4)]
  by simp


lemma solver_lower:
  assumes "shape N T" "\<And>i j. i < N \<Longrightarrow> j < N \<Longrightarrow> lo \<le> cell T i j"
  shows "i < N \<Longrightarrow> j < N \<Longrightarrow> lo \<le> cell (solver N K T) i j"
proof (induction K arbitrary: i j)
  case 0
  then show ?case by (simp add: solver_0 assms(2))
next
  case (Suc K)
  show ?case
    unfolding solver_Suc
    by (rule sweep_lower [OF shape_solver [OF assms(1)] Suc.IH Suc.prems])
qed

lemma solver_upper:
  assumes "shape N T" "\<And>i j. i < N \<Longrightarrow> j < N \<Longrightarrow> cell T i j \<le> hi"
  shows "i < N \<Longrightarrow> j < N \<Longrightarrow> cell (solver N K T) i j \<le> hi"
proof (induction K arbitrary: i j)
  case 0
  then show ?case by (simp add: solver_0 assms(2))
next
  case (Suc K)
  show ?case
    unfolding solver_Suc
    by (rule sweep_upper [OF shape_solver [OF assms(1)] Suc.IH Suc.prems])
qed






text \<open>
  Where the left column lies strictly above a lower bound of the field, one sweep lifts
  every interior cell strictly above it: the update of a cell reads its left neighbour as
  already rewritten.
\<close>

lemma sweep_strict_lower:
  assumes sh: "shape N T"
    and lo: "\<And>i j. i < N \<Longrightarrow> j < N \<Longrightarrow> lo \<le> cell T i j"
    and left: "\<And>i. 1 \<le> i \<Longrightarrow> i < N - 1 \<Longrightarrow> lo < cell T i 0"
  shows "interior N i j \<Longrightarrow> lo < cell (sweep N T) i j"
proof (induction j)
  case 0
  then show ?case by (simp add: interior_def)
next
  case (Suc j)
  then have ij: "1 \<le> i" "i < N - 1" "Suc j < N - 1"
    by (simp_all add: interior_def)
  have a: "lo \<le> cell T (i + 1) (Suc j)"
    using ij by (intro lo) auto
  have b: "lo \<le> cell (sweep N T) (i - 1) (Suc j)"
    using ij by (intro sweep_lower [OF sh lo]) auto
  have c: "lo \<le> cell T i (Suc j + 1)"
    using ij by (intro lo) auto
  have d: "lo < cell (sweep N T) i (Suc j - 1)"
  proof (cases "j = 0")
    case True
    have "cell (sweep N T) i 0 = cell T i 0"
      by (rule cell_sweep_boundary) simp
    then show ?thesis
      using True left [OF ij(1,2)] by simp
  next
    case False
    then have "interior N i j"
      using ij by (simp add: interior_def)
    then show ?thesis
      using Suc.IH by simp
  qed
  show ?case
    using a b c d by (simp add: cell_sweep_interior' [OF sh Suc.prems])
qed

text \<open>The same below an upper bound, from row 0 and the neighbour above.\<close>

lemma sweep_strict_upper:
  assumes sh: "shape N T"
    and hi: "\<And>i j. i < N \<Longrightarrow> j < N \<Longrightarrow> cell T i j \<le> hi"
    and bottom: "\<And>j. 1 \<le> j \<Longrightarrow> j < N - 1 \<Longrightarrow> cell T 0 j < hi"
  shows "interior N i j \<Longrightarrow> cell (sweep N T) i j < hi"
proof (induction i)
  case 0
  then show ?case by (simp add: interior_def)
next
  case (Suc i)
  then have ij: "1 \<le> j" "j < N - 1" "Suc i < N - 1"
    by (simp_all add: interior_def)
  have a: "cell T (Suc i + 1) j \<le> hi"
    using ij by (intro hi) auto
  have b: "cell (sweep N T) (Suc i - 1) j < hi"
  proof (cases "i = 0")
    case True
    have "cell (sweep N T) 0 j = cell T 0 j"
      by (rule cell_sweep_boundary) simp
    then show ?thesis
      using True bottom [OF ij(1,2)] by simp
  next
    case False
    then have "interior N i j"
      using ij by (simp add: interior_def)
    then show ?thesis
      using Suc.IH by simp
  qed
  have c: "cell T (Suc i) (j + 1) \<le> hi"
    using ij by (intro hi) auto
  have d: "cell (sweep N T) (Suc i) (j - 1) \<le> hi"
    using ij by (intro sweep_upper [OF sh hi]) auto
  show ?case
    using a b c d by (simp add: cell_sweep_interior' [OF sh Suc.prems])
qed

text \<open>
  The reference boundary values (top 100, bottom 0, left 100, right 100, guess 0): after
  at least one sweep every interior cell is strictly between 0 and 100.
\<close>

lemma reference_strict:
  assumes "interior N i j"
  shows "0 < cell (solver N (Suc K) (init N 0 100 0 100 100)) i j
         \<and> cell (solver N (Suc K) (init N 0 100 0 100 100)) i j < 100"
proof -
  let ?T = "solver N K (init N 0 100 0 100 100)"
  have sh: "shape N ?T"
    by (intro shape_solver shape_init)
  have lo: "0 \<le> cell ?T i j" if "i < N" "j < N" for i j
    using that by (intro solver_lower shape_init) (simp_all add: cell_init)
  have hi: "cell ?T i j \<le> 100" if "i < N" "j < N" for i j
    using that by (intro solver_upper shape_init) (simp_all add: cell_init)
  have left: "0 < cell ?T i 0" if "1 \<le> i" "i < N - 1" for i
    using that by (simp add: cell_solver_boundary cell_init)
  have bottom: "cell ?T 0 j < 100" if "1 \<le> j" "j < N - 1" for j
    using that by (simp add: cell_solver_boundary cell_init)
  show ?thesis
    unfolding solver_Suc
    using sweep_strict_lower [OF sh lo left assms] sweep_strict_upper [OF sh hi bottom assms]
    by simp
qed

lemma sweep_step_reference:
  "sweep_step reference_config n =
     Inr (solver 60 (nat n) (init 60 0 100 0 100 100),
          [cell (solver 60 (nat n) (init 60 0 100 0 100 100)) 30 5,
           cell (solver 60 (nat n) (init 60 0 100 0 100 100)) 54 30,
           cell (solver 60 (nat n) (init 60 0 100 0 100 100)) 30 54,
           cell (solver 60 (nat n) (init 60 0 100 0 100 100)) 5 30])"
  by (simp add: sweep_step_def reference_config_def sampler_60 Let_def)

text \<open>
  C5. The reference scenario: side 60, top 100, bottom 0, left 100, right 100, guess 0,
  500 sweeps. The sample coordinates \<open>(x, y)\<close> are (5,30), (30,54), (54,30), (30,5); the
  sampler reads \<open>T[y, x]\<close> at each, and each of the four readings is strictly between 0
  and 100.
\<close>

theorem C5_reference_samples_strictly_inside:
  "(wormA_x 60, wormA_y 60) = (5, 30) \<and> (wormB_x 60, wormB_y 60) = (30, 54)
   \<and> (wormC_x 60, wormC_y 60) = (54, 30) \<and> (wormD_x 60, wormD_y 60) = (30, 5)
   \<and> (\<exists>T a b c d.
        sweep_step reference_config 500 = Inr (T, [a, b, c, d])
        \<and> T = solver 60 500 (init 60 0 100 0 100 100)
        \<and> sampler 60 T = Inr [a, b, c, d]
        \<and> a = cell T 30 5 \<and> b = cell T 54 30 \<and> c = cell T 30 54 \<and> d = cell T 5 30
        \<and> 0 < a \<and> a < 100 \<and> 0 < b \<and> b < 100 \<and> 0 < c \<and> c < 100 \<and> 0 < d \<and> d < 100)"
proof -
  have K: "500 = Suc 499" by simp
  have int: "interior 60 30 5" "interior 60 54 30" "interior 60 30 54" "interior 60 5 30"
    by (simp_all add: interior_def)
  have
    "0 < cell (solver 60 500 (init 60 0 100 0 100 100)) 30 5
     \<and> cell (solver 60 500 (init 60 0 100 0 100 100)) 30 5 < 100"
    "0 < cell (solver 60 500 (init 60 0 100 0 100 100)) 54 30
     \<and> cell (solver 60 500 (init 60 0 100 0 100 100)) 54 30 < 100"
    "0 < cell (solver 60 500 (init 60 0 100 0 100 100)) 30 54
     \<and> cell (solver 60 500 (init 60 0 100 0 100 100)) 30 54 < 100"
    "0 < cell (solver 60 500 (init 60 0 100 0 100 100)) 5 30
     \<and> cell (solver 60 500 (init 60 0 100 0 100 100)) 5 30 < 100"
    unfolding K
    by (rule reference_strict [OF int(1)], rule reference_strict [OF int(2)],
        rule reference_strict [OF int(3)], rule reference_strict [OF int(4)])
  then show ?thesis
    by (simp add: worm_60 sweep_step_reference sampler_60)
qed

section \<open>Symmetry of the samples\<close>










text \<open>The sample coordinates are indices of the field for every positive side length.\<close>

lemma py_int_nonneg: "0 \<le> x \<Longrightarrow> py_int x = \<lfloor>x\<rfloor>"
  by (simp add: py_int_def)

lemma worm_low:
  assumes "0 < N"
  shows "0 \<le> py_int (real N / 2 - 0.416 * real N)"
    "py_int (real N / 2 - 0.416 * real N) < int N"
proof -
  have x: "0 \<le> real N / 2 - 0.416 * real N" "real N / 2 - 0.416 * real N < real N"
    using assms by simp_all
  show "0 \<le> py_int (real N / 2 - 0.416 * real N)"
    using x(1) by (simp add: py_int_nonneg)
  show "py_int (real N / 2 - 0.416 * real N) < int N"
    using x by (simp add: py_int_nonneg floor_less_iff)
qed

lemma worm_mid:
  assumes "0 < N"
  shows "0 \<le> py_int (real N / 2)" "py_int (real N / 2) < int N"
  using assms by (simp_all add: py_int_nonneg floor_less_iff)

lemma worm_high:
  assumes "0 < N"
  shows "0 \<le> py_int (real N / 2 + 0.416 * real N)"
    "py_int (real N / 2 + 0.416 * real N) < int N"
proof -
  have x: "0 \<le> real N / 2 + 0.416 * real N" "real N / 2 + 0.416 * real N < real N"
    using assms by simp_all
  show "0 \<le> py_int (real N / 2 + 0.416 * real N)"
    using x(1) by (simp add: py_int_nonneg)
  show "py_int (real N / 2 + 0.416 * real N) < int N"
    using x by (simp add: py_int_nonneg floor_less_iff)
qed

lemma axis_index_in_range: "0 \<le> k \<Longrightarrow> k < int n \<Longrightarrow> axis_index n k = Inr (nat k)"
  by (simp add: axis_index_def)

lemma sampler_cells:
  assumes "0 < N"
  shows "sampler N T =
     Inr [cell T (nat (wormA_y N)) (nat (wormA_x N)), cell T (nat (wormB_y N)) (nat (wormB_x N)),
          cell T (nat (wormC_y N)) (nat (wormC_x N)), cell T (nat (wormD_y N)) (nat (wormD_x N))]"
  using worm_low [OF assms] worm_mid [OF assms] worm_high [OF assms]
  by (simp add: sampler_def read_at_def axis_index_in_range
      wormA_x_def wormA_y_def wormB_x_def wormB_y_def
      wormC_x_def wormC_y_def wormD_x_def wormD_y_def)




section \<open>The sweep driver\<close>

lemma sampler_sample_cells: "0 < N \<Longrightarrow> sampler N T = Inr (sample_cells N T)"
  by (simp add: sampler_cells sample_cells_def)

lemma sweep_step_fresh:
  "0 < len c \<Longrightarrow> sweep_step c n = Inr (fresh_field c n, sample_cells (len c) (fresh_field c n))"
  by (simp add: sweep_step_def fresh_field_def sampler_sample_cells Let_def)

lemma driver_loop_appends:
  assumes "0 < len c"
  shows "driver_loop c ns (data, outs) =
     Inr (data @ map (\<lambda>n. (n, sample_cells (len c) (fresh_field c n))) ns,
          outs @ map (\<lambda>n. SaveFig n (fresh_field c n)) ns)"
  by (induction ns arbitrary: data outs) (simp_all add: sweep_step_fresh [OF assms])

lemma py_range_counts:
  assumes "0 < step"
  shows "py_range lo (hi + 1) step = Inr (iteration_counts lo hi step)"
proof -
  have "(hi + 1 - lo + step - 1) div step = (hi - lo) div step + 1"
    using assms div_add_self2 [of step "hi - lo"] by (simp add: algebra_simps)
  then show ?thesis
    using assms by (simp add: py_range_def iteration_counts_def)
qed


lemma main_runs:
  assumes "pore_size h \<noteq> 0" "0 < d c" "0 < len c"
  shows "main h c =
     Inr (map (\<lambda>n. SaveFig n (fresh_field c n)) (iteration_counts (start c) (endv c) (d c))
          @ [SaveTxt (map (\<lambda>n. (n, sample_cells (len c) (fresh_field c n)))
                        (iteration_counts (start c) (endv c) (d c)))])"
  using assms
  by (simp add: main_def Let_def py_range_counts driver_loop_appends)



lemma reference_facts:
  "pore_size reference_hydrogel \<noteq> 0" "0 < d reference_config" "0 < len reference_config"
  "start reference_config = 0" "endv reference_config = 500" "d reference_config = 20"
  "len reference_config = 60"
  by (simp_all add: reference_hydrogel_def reference_config_def)



text \<open>
  C9, as stated, fails for one value: line 58 divides by \<open>pore_size\<close>, so with
  \<open>pore_size = 0\<close> the program stops with ZeroDivisionError before the first sweep step,
  while the reference values run to the end.
\<close>

theorem C9_counterexample:
  "main (reference_hydrogel\<lparr>pore_size := 0\<rparr>) reference_config
     \<noteq> main reference_hydrogel reference_config"
proof -
  have "main (reference_hydrogel\<lparr>pore_size := 0\<rparr>) reference_config = Inl ZeroDivisionError"
    by (simp add: main_def)
  moreover have "main reference_hydrogel reference_config \<noteq> Inl ZeroDivisionError"
    by (simp add: main_runs [OF reference_facts(1-3)])
  ultimately show ?thesis
    by simp
qed

text \<open>
  C9, amended. For any two assignments of the hydrogel parameters in which \<open>pore_size\<close>
  is not zero, everything the program writes (the field of every sweep step and the sweep
  record) is the same: the parameters, and \<open>de\<close> computed from them, are never read by
  the initializer, the solver or the sampler.
\<close>

theorem C9_hydrogel_parameters_unused:
  "pore_size h \<noteq> 0 \<Longrightarrow> pore_size h' \<noteq> 0 \<Longrightarrow> main h c = main h' c"
  by (simp add: main_def Let_def)

theorem C9_witness:
  "pore_size reference_hydrogel \<noteq> 0
   \<and> pore_size \<lparr>Et = 0.9, drug_size = 1, pore_size = 3, tor = 5, diffusivity_NO = 1,
                diffusivity_EtOH = 2, diffusivity_CO2 = 3, diffusivity_N2 = 4,
                diffusivity_acetone = 5\<rparr> \<noteq> 0
   \<and> main reference_hydrogel reference_config =
       main \<lparr>Et = 0.9, drug_size = 1, pore_size = 3, tor = 5, diffusivity_NO = 1,
             diffusivity_EtOH = 2, diffusivity_CO2 = 3, diffusivity_N2 = 4,
             diffusivity_acetone = 5\<rparr> reference_config"
proof -
  have a: "pore_size reference_hydrogel \<noteq> 0"
    by (rule reference_facts(1))
  have b: "pore_size \<lparr>Et = 0.9, drug_size = 1, pore_size = 3, tor = 5, diffusivity_NO = 1,
                diffusivity_EtOH = 2, diffusivity_CO2 = 3, diffusivity_N2 = 4,
                diffusivity_acetone = 5\<rparr> \<noteq> 0"
    by simp
  show ?thesis
    using a b C9_hydrogel_parameters_unused [OF a b, of reference_config] by blast
qed

section \<open>Steady fields\<close>





section \<open>Monotone approach to a steady field\<close>














section \<open>Existence and uniqueness of the steady field\<close>











end
